theory Spec2Isabelle
  imports Main
begin

section \<open>Data model of \<open>scripts/add_new_docs.py\<close>\<close>

text \<open>
  The script reads three JSON files of scraped documents, hands every document to a
  chunker, collects the chunks of one file and forwards them to a vector store in a single
  \<open>add_documents\<close> call per file.

  A scraped document is a JSON object, read by Python as a \<open>dict\<close>: a map from field
  names to values. The fields the script reads are strings.
  A chunk is the \<open>dict\<close> the chunker returns, with a \<open>content\<close> and a \<open>metadata\<close>
  entry; the metadata is again a \<open>dict\<close>.
\<close>

type_synonym py_dict = "string \<rightharpoonup> string"

record chunk =
  content :: string
  metadata :: py_dict

text \<open>Exceptions are values. \<open>KeyError k\<close> is what \<open>d[k]\<close> raises on a missing key;
  \<open>ChunkerError\<close> stands for any other \<open>Exception\<close> that the chunker raises.\<close>

datatype py_error = KeyError string | ChunkerError string

text \<open>
  The chunker (\<open>SmartDocumentChunker.chunk_document\<close>) is not part of the script: it is a
  parameter of the model. It takes the content and the metadata and either raises or
  returns a list of chunks.
\<close>

type_synonym chunker = "string \<Rightarrow> py_dict \<Rightarrow> py_error + chunk list"

text \<open>One \<open>vector_store.add_documents(texts=..., metadatas=..., ids=...)\<close> call. The vector
  store is a collaborator outside the script: it is represented by the sequence of calls it
  has received, and its calls, like the logger's, are taken to return.\<close>

record add_call =
  texts :: "string list"
  metadatas :: "py_dict list"
  ids :: "string list"

text \<open>The messages the script logs in the course of a run, one constructor per \<open>logger\<close> call.\<close>

datatype log_entry =
    InfoStarting
  | WarnFileNotFound string
  | InfoProcessing string string
  | InfoLoaded nat string
  | InfoProgress nat nat string
  | ErrorProcessing string py_error
  | InfoAdding nat string
  | InfoAdded nat string
  | WarnNoChunks string
  | InfoCompleted
  | InfoTotalAdded nat

fun is_error :: "log_entry \<Rightarrow> bool" where
  "is_error (ErrorProcessing t e) = True"
| "is_error other = False"

record run_state =
  vector_store :: "add_call list"
  logged :: "log_entry list"
  total_chunks_added :: nat

text \<open>The file system as the script sees it: \<open>None\<close> when \<open>Path.exists()\<close> is false,
  otherwise the list of documents \<open>json.load\<close> returns.\<close>

type_synonym file_system = "string \<rightharpoonup> py_dict list"

section \<open>Operations\<close>

text \<open>\<open>d[k]\<close> and \<open>d.get(k, default)\<close>.\<close>

definition getitem :: "py_dict \<Rightarrow> string \<Rightarrow> py_error + string" where
  "getitem d k = (case d k of None \<Rightarrow> Inl (KeyError k) | Some v \<Rightarrow> Inr v)"

definition dict_get :: "py_dict \<Rightarrow> string \<Rightarrow> string \<Rightarrow> string" where
  "dict_get d k dflt = (case d k of None \<Rightarrow> dflt | Some v \<Rightarrow> v)"

text \<open>\<open>str(i)\<close> for a non-negative integer: its decimal digits.\<close>

definition digit_char :: "nat \<Rightarrow> char" where
  "digit_char d = ''0123456789'' ! d"

function str_nat :: "nat \<Rightarrow> string" where
  "str_nat n = (if n < 10 then [digit_char n] else str_nat (n div 10) @ [digit_char (n mod 10)])"
  by pat_completeness auto
termination
  by (relation "measure (\<lambda>n. n)") auto

declare str_nat.simps [simp del]

text \<open>
  The body of the \<open>try\<close> block, lines 50 to 59. The keyword arguments are evaluated from
  left to right, so the first missing field among \<open>content\<close>, \<open>title\<close>, \<open>source\<close>,
  \<open>url\<close> is the one the \<open>KeyError\<close> names; \<open>doc_type\<close> and \<open>scraped_at\<close> are read
  with \<open>get\<close> and a default. Then the chunker is called.
\<close>

definition chunk_one_document :: "chunker \<Rightarrow> py_dict \<Rightarrow> py_error + chunk list" where
  "chunk_one_document chunk_document doc =
     (case getitem doc ''content'' of Inl e \<Rightarrow> Inl e | Inr c \<Rightarrow>
      case getitem doc ''title'' of Inl e \<Rightarrow> Inl e | Inr t \<Rightarrow>
      case getitem doc ''source'' of Inl e \<Rightarrow> Inl e | Inr s \<Rightarrow>
      case getitem doc ''url'' of Inl e \<Rightarrow> Inl e | Inr u \<Rightarrow>
        chunk_document c
          [''title'' \<mapsto> t, ''source'' \<mapsto> s, ''url'' \<mapsto> u,
           ''doc_type'' \<mapsto> dict_get doc ''doc_type'' ''general'',
           ''scraped_at'' \<mapsto> dict_get doc ''scraped_at'' ''''])"

text \<open>
  The loop over \<open>enumerate(documents)\<close>, lines 47 to 68. The state is
  \<open>chunks_for_this_source\<close> and the log; \<open>n\<close> is \<open>len(documents)\<close> and \<open>i\<close> the index.
  The \<open>except\<close> handler formats its message with \<open>doc['title']\<close>: when the document has
  no title that lookup raises inside the handler, nothing catches it, and the exception
  leaves the loop and the function.
\<close>

fun process_documents ::
  "chunker \<Rightarrow> string \<Rightarrow> nat \<Rightarrow> nat \<Rightarrow> py_dict list \<Rightarrow> chunk list \<times> log_entry list
     \<Rightarrow> py_error + (chunk list \<times> log_entry list)" where
  "process_documents chunk_document doc_type n i [] acc = Inr acc"
| "process_documents chunk_document doc_type n i (doc # docs) (chunks_for_this_source, lg) =
     (case chunk_one_document chunk_document doc of
        Inr chunks \<Rightarrow>
          process_documents chunk_document doc_type n (i + 1) docs
            (chunks_for_this_source @ chunks,
             if (i + 1) mod 10 = 0 then lg @ [InfoProgress (i + 1) n doc_type] else lg)
      | Inl e \<Rightarrow>
          (case getitem doc ''title'' of
             Inl e' \<Rightarrow> Inl e'
           | Inr t \<Rightarrow>
               process_documents chunk_document doc_type n (i + 1) docs
                 (chunks_for_this_source, lg @ [ErrorProcessing t e])))"

text \<open>
  Line 77: \<open>[f"{chunk['metadata']['source']}_{i}" for i, chunk in enumerate(...)]\<close>.
  The lookup of \<open>source\<close> in a chunk's metadata raises when the chunker left it out.
\<close>

fun make_ids :: "nat \<Rightarrow> chunk list \<Rightarrow> py_error + string list" where
  "make_ids i [] = Inr []"
| "make_ids i (c # cs) =
     (case getitem (metadata c) ''source'' of
        Inl e \<Rightarrow> Inl e
      | Inr s \<Rightarrow>
          (case make_ids (i + 1) cs of
             Inl e \<Rightarrow> Inl e
           | Inr rest \<Rightarrow> Inr ((s @ ''_'' @ str_nat i) # rest)))"

text \<open>The body of the outer loop, lines 30 to 90, for one \<open>(file_path, doc_type)\<close> pair.\<close>

definition process_source ::
  "chunker \<Rightarrow> file_system \<Rightarrow> string \<times> string \<Rightarrow> run_state \<Rightarrow> py_error + run_state" where
  "process_source chunk_document fs entry st =
     (case entry of (file_path, doc_type) \<Rightarrow>
      case fs file_path of
        None \<Rightarrow> Inr (st\<lparr>logged := logged st @ [WarnFileNotFound file_path]\<rparr>)
      | Some documents \<Rightarrow>
          (case process_documents chunk_document doc_type (length documents) 0 documents
                  ([], logged st @ [InfoProcessing doc_type file_path,
                                    InfoLoaded (length documents) doc_type]) of
             Inl e \<Rightarrow> Inl e
           | Inr (chunks_for_this_source, lg) \<Rightarrow>
               if chunks_for_this_source \<noteq> [] then
                 (case make_ids 0 chunks_for_this_source of
                    Inl e \<Rightarrow> Inl e
                  | Inr the_ids \<Rightarrow>
                      Inr \<lparr>vector_store = vector_store st @
                             [\<lparr>texts = map content chunks_for_this_source,
                               metadatas = map metadata chunks_for_this_source,
                               ids = the_ids\<rparr>],
                           logged = lg @
                             [InfoAdding (length chunks_for_this_source) doc_type,
                              InfoAdded (length chunks_for_this_source) doc_type],
                           total_chunks_added =
                             total_chunks_added st + length chunks_for_this_source\<rparr>)
               else Inr (st\<lparr>logged := lg @ [WarnNoChunks doc_type]\<rparr>)))"

fun process_sources ::
  "chunker \<Rightarrow> file_system \<Rightarrow> (string \<times> string) list \<Rightarrow> run_state \<Rightarrow> py_error + run_state" where
  "process_sources chunk_document fs [] st = Inr st"
| "process_sources chunk_document fs (entry # entries) st =
     (case process_source chunk_document fs entry st of
        Inl e \<Rightarrow> Inl e
      | Inr st' \<Rightarrow> process_sources chunk_document fs entries st')"

definition scraped_files :: "(string \<times> string) list" where
  "scraped_files =
     [(''data/scraped/django_docs.json'', ''Django''),
      (''data/scraped/react_nextjs_docs.json'', ''React/Next.js''),
      (''data/scraped/python_docs.json'', ''Python'')]"

text \<open>
  The whole function. The third argument is the vector store before the run (the calls it
  has received so far): the store outlives a run, the counter and the log do not. The
  closing statistics only read the store and log what it answers; they are left out.
\<close>

definition process_and_add_documentation ::
  "chunker \<Rightarrow> file_system \<Rightarrow> add_call list \<Rightarrow> py_error + run_state" where
  "process_and_add_documentation chunk_document fs store =
     (case process_sources chunk_document fs scraped_files
             \<lparr>vector_store = store, logged = [InfoStarting], total_chunks_added = 0\<rparr> of
        Inl e \<Rightarrow> Inl e
      | Inr st \<Rightarrow>
          Inr (st\<lparr>logged := logged st @ [InfoCompleted, InfoTotalAdded (total_chunks_added st)]\<rparr>))"

section \<open>Notions used to state the properties\<close>

text \<open>The chunks a document contributes to its group: those the chunker returned, none
  when the \<open>try\<close> block raised.\<close>

definition chunks_of :: "chunker \<Rightarrow> py_dict \<Rightarrow> chunk list" where
  "chunks_of chunk_document doc =
     (case chunk_one_document chunk_document doc of Inl e \<Rightarrow> [] | Inr cs \<Rightarrow> cs)"

text \<open>A document is handled when the loop gets past it: either the \<open>try\<close> block succeeds,
  or it raises and the handler can read the title it logs.\<close>

definition handled :: "chunker \<Rightarrow> py_dict \<Rightarrow> bool" where
  "handled chunk_document doc =
     (case chunk_one_document chunk_document doc of
        Inr cs \<Rightarrow> True
      | Inl e \<Rightarrow> (case doc ''title'' of None \<Rightarrow> False | Some t \<Rightarrow> True))"

text \<open>The error record the handler writes for a document.\<close>

definition errors_of :: "chunker \<Rightarrow> py_dict \<Rightarrow> log_entry list" where
  "errors_of chunk_document doc =
     (case chunk_one_document chunk_document doc of
        Inr cs \<Rightarrow> []
      | Inl e \<Rightarrow> (case doc ''title'' of None \<Rightarrow> [] | Some t \<Rightarrow> [ErrorProcessing t e]))"

text \<open>The calls a run or a step has made when it returns, or the exception it raised.\<close>

definition calls_made :: "py_error + run_state \<Rightarrow> py_error + add_call list" where
  "calls_made outcome = (case outcome of Inl e \<Rightarrow> Inl e | Inr st \<Rightarrow> Inr (vector_store st))"

text \<open>A state with an empty store, to run a step on its own.\<close>

definition fresh_state :: run_state where
  "fresh_state = \<lparr>vector_store = [], logged = [], total_chunks_added = 0\<rparr>"

text \<open>A call has positional ids when every id is the \<open>source\<close> of the metadata at the
  same position, an underscore, and the position in decimal.\<close>

definition positional_ids :: "add_call \<Rightarrow> bool" where
  "positional_ids c =
     (length (metadatas c) = length (ids c) \<and>
      list_all (\<lambda>k. case (metadatas c ! k) ''source'' of
                       None \<Rightarrow> False
                     | Some s \<Rightarrow> ids c ! k = s @ ''_'' @ str_nat k)
        [0..<length (ids c)])"

text \<open>The ids of a call, each next to the \<open>source\<close>, \<open>url\<close> and \<open>chunk_index\<close> of the
  metadata it is passed with.\<close>

definition id_assignment ::
  "add_call \<Rightarrow> ((string option \<times> string option \<times> string option) \<times> string) list" where
  "id_assignment c =
     zip (map (\<lambda>m. (m ''source'', m ''url'', m ''chunk_index'')) (metadatas c)) (ids c)"

section \<open>Sample inputs\<close>

text \<open>
  A chunker to run the model on: no chunk for empty content, one chunk for up to four
  characters, otherwise two (the first four characters, then the rest). It copies the
  metadata it receives into every chunk and adds the chunk's index.
\<close>

definition sample_chunker :: chunker where
  "sample_chunker c md =
     (if c = [] then Inr []
      else if length c \<le> 4 then Inr [\<lparr>content = c, metadata = md(''chunk_index'' \<mapsto> ''0'')\<rparr>]
      else Inr [\<lparr>content = take 4 c, metadata = md(''chunk_index'' \<mapsto> ''0'')\<rparr>,
                \<lparr>content = drop 4 c, metadata = md(''chunk_index'' \<mapsto> ''1'')\<rparr>])"

text \<open>Scraped documents: three complete ones, and some that miss a field.\<close>

definition doc_a :: py_dict where
  "doc_a = [''content'' \<mapsto> ''alpha'', ''title'' \<mapsto> ''A'', ''source'' \<mapsto> ''docs'', ''url'' \<mapsto> ''u1'']"

definition doc_b :: py_dict where
  "doc_b = [''content'' \<mapsto> ''beta'', ''title'' \<mapsto> ''B'', ''source'' \<mapsto> ''docs'', ''url'' \<mapsto> ''u2'']"

definition doc_c :: py_dict where
  "doc_c = [''content'' \<mapsto> ''gamm'', ''title'' \<mapsto> ''G'', ''source'' \<mapsto> ''django'', ''url'' \<mapsto> ''u6'']"

definition doc_no_title :: py_dict where
  "doc_no_title = [''content'' \<mapsto> ''gamma'', ''source'' \<mapsto> ''docs'', ''url'' \<mapsto> ''u3'']"

definition doc_no_content :: py_dict where
  "doc_no_content = [''title'' \<mapsto> ''C'', ''source'' \<mapsto> ''docs'', ''url'' \<mapsto> ''u4'']"

definition doc_no_url :: py_dict where
  "doc_no_url = [''content'' \<mapsto> ''delta'', ''title'' \<mapsto> ''D'', ''source'' \<mapsto> ''docs'']"

definition doc_empty :: py_dict where
  "doc_empty = [''content'' \<mapsto> [], ''title'' \<mapsto> ''E'', ''source'' \<mapsto> ''docs'', ''url'' \<mapsto> ''u5'']"

lemmas sample_defs =
  process_and_add_documentation_def scraped_files_def process_source_def
  chunk_one_document_def sample_chunker_def getitem_def dict_get_def
  doc_a_def doc_b_def doc_c_def doc_no_title_def doc_no_content_def doc_no_url_def doc_empty_def
  str_nat.simps digit_char_def id_assignment_def

section \<open>Decimal rendering and the shape of an id\<close>

lemma str_nat_nonempty: "str_nat n \<noteq> []"
  by (subst str_nat.simps) simp

lemma digit_char_inj: "a < 10 \<Longrightarrow> b < 10 \<Longrightarrow> digit_char a = digit_char b \<Longrightarrow> a = b"
proof -
  assume a: "a < 10" and b: "b < 10" and e: "digit_char a = digit_char b"
  have d: "distinct ''0123456789''" by simp
  have l: "length ''0123456789'' = 10" by simp
  from e have "''0123456789'' ! a = ''0123456789'' ! b" by (simp only: digit_char_def)
  with d a b l show "a = b" by (simp only: nth_eq_iff_index_eq)
qed

lemma digit_char_not_underscore: "d < 10 \<Longrightarrow> digit_char d \<noteq> CHR ''_''"
proof -
  assume a: "d < 10"
  have l: "length ''0123456789'' = 10" by simp
  have "''0123456789'' ! d \<in> set ''0123456789''" using a l by (simp only: nth_mem)
  moreover have "CHR ''_'' \<notin> set ''0123456789''" by simp
  ultimately show ?thesis unfolding digit_char_def by metis
qed

lemma str_nat_no_underscore: "CHR ''_'' \<notin> set (str_nat n)"
proof (induction n rule: str_nat.induct)
  case (1 n)
  show ?case
  proof (cases "n < 10")
    case True
    then show ?thesis using digit_char_not_underscore [of n] by (subst str_nat.simps) auto
  next
    case False
    with 1 digit_char_not_underscore [of "n mod 10"] show ?thesis
      by (subst str_nat.simps) auto
  qed
qed

lemma str_nat_inj: "str_nat n = str_nat m \<Longrightarrow> n = m"
proof (induction n arbitrary: m rule: str_nat.induct)
  case (1 n)
  show ?case
  proof (cases "n < 10")
    case n: True
    show ?thesis
    proof (cases "m < 10")
      case True
      with n 1(2) show ?thesis
        by (simp add: str_nat.simps [of n] str_nat.simps [of m] digit_char_inj)
    next
      case False
      with n 1(2) str_nat_nonempty [of "m div 10"] show ?thesis
        by (simp add: str_nat.simps [of n] str_nat.simps [of m] )
    qed
  next
    case n: False
    show ?thesis
    proof (cases "m < 10")
      case True
      with n 1(2) str_nat_nonempty [of "n div 10"] show ?thesis
        by (simp add: str_nat.simps [of n] str_nat.simps [of m] )
    next
      case False
      with n 1(2) have a: "str_nat (n div 10) = str_nat (m div 10)"
        and b: "digit_char (n mod 10) = digit_char (m mod 10)"
        by (simp_all add: str_nat.simps [of n] str_nat.simps [of m])
      from 1(1) [OF n a] have "n div 10 = m div 10" .
      moreover from b have "n mod 10 = m mod 10" by (simp add: digit_char_inj)
      ultimately show ?thesis by (metis div_mult_mod_eq)
    qed
  qed
qed

lemma split_at_last_underscore:
  assumes "a @ CHR ''_'' # x = b @ CHR ''_'' # y"
    and "CHR ''_'' \<notin> set x" and "CHR ''_'' \<notin> set y"
  shows "a = b \<and> x = y"
proof -
  have "takeWhile (\<lambda>c. c \<noteq> CHR ''_'') (rev (a @ CHR ''_'' # x)) = rev x"
    using assms(2) by (auto simp: takeWhile_tail)
  moreover have "takeWhile (\<lambda>c. c \<noteq> CHR ''_'') (rev (b @ CHR ''_'' # y)) = rev y"
    using assms(3) by (auto simp: takeWhile_tail)
  ultimately have "x = y" using assms(1) by simp
  with assms(1) show ?thesis by simp
qed

lemma id_inj: "s @ ''_'' @ str_nat i = s' @ ''_'' @ str_nat j \<Longrightarrow> s = s' \<and> i = j"
  using split_at_last_underscore [of s "str_nat i" s' "str_nat j"]
  by (auto simp: str_nat_no_underscore dest: str_nat_inj)

section \<open>The document loop and the id comprehension\<close>

lemma process_documents_handled:
  "list_all (handled ch) docs \<Longrightarrow>
   \<exists>lg'. process_documents ch dt n i docs (cs, lg) =
            Inr (cs @ concat (map (chunks_of ch) docs), lg') \<and>
          filter is_error lg' = filter is_error lg @ concat (map (errors_of ch) docs)"
proof (induction docs arbitrary: i cs lg)
  case Nil
  then show ?case by simp
next
  case (Cons d docs)
  then have hd: "handled ch d" and tl: "list_all (handled ch) docs" by simp_all
  show ?case
  proof (cases "chunk_one_document ch d")
    case (Inr xs)
    from Cons.IH [OF tl, of "i + 1" "cs @ xs"
        "if (i + 1) mod 10 = 0 then lg @ [InfoProgress (i + 1) n dt] else lg"]
    show ?thesis using Inr by (auto simp: chunks_of_def errors_of_def)
  next
    case (Inl e)
    with hd obtain t where t: "d ''title'' = Some t"
      by (auto simp: handled_def split: option.splits)
    from Cons.IH [OF tl, of "i + 1" cs "lg @ [ErrorProcessing t e]"]
    show ?thesis using Inl t by (auto simp: chunks_of_def errors_of_def getitem_def)
  qed
qed

lemma process_documents_unhandled:
  "\<not> list_all (handled ch) docs \<Longrightarrow>
   process_documents ch dt n i docs (cs, lg) = Inl (KeyError ''title'')"
proof (induction docs arbitrary: i cs lg)
  case Nil
  then show ?case by simp
next
  case (Cons d docs)
  show ?case
  proof (cases "handled ch d")
    case True
    with Cons.prems have tl: "\<not> list_all (handled ch) docs" by simp
    from True show ?thesis 
      by (auto simp: handled_def getitem_def Cons.IH [OF tl] split: sum.splits option.splits)
  next
    case False
    then show ?thesis
      by (auto simp: handled_def getitem_def split: sum.splits option.splits)
  qed
qed

lemma make_ids_length: "make_ids i cs = Inr l \<Longrightarrow> length l = length cs"
  by (induction cs arbitrary: i l) (auto split: sum.splits)

lemma make_ids_nth:
  "make_ids i cs = Inr l \<Longrightarrow> k < length cs \<Longrightarrow>
   \<exists>s. metadata (cs ! k) ''source'' = Some s \<and> l ! k = s @ ''_'' @ str_nat (i + k)"
proof (induction cs arbitrary: i l k)
  case Nil
  then show ?case by simp
next
  case (Cons c cs)
  from Cons.prems(1) obtain s rest where
    s: "metadata c ''source'' = Some s" and
    rest: "make_ids (i + 1) cs = Inr rest" and
    l: "l = (s @ ''_'' @ str_nat i) # rest"
    by (auto simp: getitem_def split: sum.splits option.splits)
  show ?case
  proof (cases k)
    case 0
    with s l show ?thesis by simp
  next
    case (Suc j)
    with Cons.prems(2) have "j < length cs" by simp
    from Cons.IH [OF rest this] Suc l show ?thesis by simp
  qed
qed

lemma make_ids_total:
  "list_all (\<lambda>c. metadata c ''source'' \<noteq> None) cs \<Longrightarrow> \<exists>l. make_ids i cs = Inr l"
proof (induction cs arbitrary: i)
  case Nil
  then show ?case by simp
next
  case (Cons c cs)
  then obtain l where "make_ids (i + 1) cs = Inr l" by fastforce
  with Cons.prems show ?case by (auto simp: getitem_def)
qed

lemma make_ids_fails:
  "\<not> list_all (\<lambda>c. metadata c ''source'' \<noteq> None) cs \<Longrightarrow> make_ids i cs = Inl (KeyError ''source'')"
  by (induction cs arbitrary: i) (auto simp: getitem_def split: sum.splits option.splits)

section \<open>One source file\<close>

lemma process_source_absent:
  "fs p = None \<Longrightarrow>
   process_source ch fs (p, dt) st = Inr (st\<lparr>logged := logged st @ [WarnFileNotFound p]\<rparr>)"
  by (simp add: process_source_def)

lemma process_source_Inr:
  assumes run: "process_source ch fs (p, dt) st = Inr st'"
    and fl: "fs p = Some docs"
  shows "list_all (handled ch) docs"
    and "filter is_error (logged st') = filter is_error (logged st) @ concat (map (errors_of ch) docs)"
    and "concat (map (chunks_of ch) docs) = [] \<Longrightarrow> vector_store st' = vector_store st"
    and "concat (map (chunks_of ch) docs) \<noteq> [] \<Longrightarrow>
         \<exists>l. make_ids 0 (concat (map (chunks_of ch) docs)) = Inr l \<and>
             vector_store st' = vector_store st @
               [\<lparr>texts = map content (concat (map (chunks_of ch) docs)),
                 metadatas = map metadata (concat (map (chunks_of ch) docs)),
                 ids = l\<rparr>]"
proof -
  let ?lg = "logged st @ [InfoProcessing dt p, InfoLoaded (length docs) dt]"
  let ?cs = "concat (map (chunks_of ch) docs)"
  show h: "list_all (handled ch) docs"
  proof (rule ccontr)
    assume "\<not> list_all (handled ch) docs"
    from process_documents_unhandled [OF this, of dt "length docs" 0 "[]" ?lg] run fl
    show False by (simp add: process_source_def)
  qed
  from process_documents_handled [OF h, of dt "length docs" 0 "[]" ?lg]
  obtain lg' where
    pd: "process_documents ch dt (length docs) 0 docs ([], ?lg) = Inr (?cs, lg')" and
    lg': "filter is_error lg' = filter is_error ?lg @ concat (map (errors_of ch) docs)"
    by auto
  from run fl pd lg'
  show "filter is_error (logged st') = filter is_error (logged st) @ concat (map (errors_of ch) docs)"
    by (auto simp: process_source_def split: if_splits sum.splits)
  from run fl pd show "?cs = [] \<Longrightarrow> vector_store st' = vector_store st"
    by (auto simp: process_source_def split: if_splits sum.splits)
  from run fl pd show "?cs \<noteq> [] \<Longrightarrow>
         \<exists>l. make_ids 0 ?cs = Inr l \<and>
             vector_store st' = vector_store st @
               [\<lparr>texts = map content ?cs, metadatas = map metadata ?cs, ids = l\<rparr>]"
    by (auto simp: process_source_def split: if_splits sum.splits)
qed

lemma process_source_total:
  assumes fl: "fs p = Some docs"
    and h: "list_all (handled ch) docs"
    and src: "list_all (\<lambda>c. metadata c ''source'' \<noteq> None) (concat (map (chunks_of ch) docs))"
  shows "\<exists>st'. process_source ch fs (p, dt) st = Inr st'"
proof -
  let ?lg = "logged st @ [InfoProcessing dt p, InfoLoaded (length docs) dt]"
  let ?cs = "concat (map (chunks_of ch) docs)"
  from process_documents_handled [OF h, of dt "length docs" 0 "[]" ?lg]
  obtain lg' where
    pd: "process_documents ch dt (length docs) 0 docs ([], ?lg) = Inr (?cs, lg')"
    by auto
  from make_ids_total [OF src, of 0] obtain l where "make_ids 0 ?cs = Inr l" by auto
  with fl pd show ?thesis by (simp add: process_source_def)
qed

lemma process_source_sources:
  assumes run: "process_source ch fs (p, dt) st = Inr st'"
    and fl: "fs p = Some docs"
  shows "list_all (\<lambda>c. metadata c ''source'' \<noteq> None) (concat (map (chunks_of ch) docs))"
proof (cases "concat (map (chunks_of ch) docs) = []")
  case True
  show ?thesis unfolding True by simp
next
  case False
  show ?thesis
  proof (rule ccontr)
    assume "\<not> ?thesis"
    from make_ids_fails [OF this, of 0] process_source_Inr(4) [OF run fl False]
    show False by auto
  qed
qed

section \<open>Failure isolation\<close>

text \<open>
  Claim C3: every document whose processing fails, in particular one without \<open>content\<close>
  and also one without \<open>title\<close>, is recorded and skipped, and the batch goes on.
  The code does this when the failing document has a title. For a document without a
  title the \<open>except\<close> handler raises itself: the run below, on a file of three documents of
  which the second has no title, ends in \<open>KeyError('title')\<close>. The exception leaves the
  loop before the \<open>add_documents\<close> call of the file, so neither the first nor the third
  document reaches the vector store.
\<close>

theorem missing_title_aborts_run:
  "process_and_add_documentation sample_chunker
     [''data/scraped/python_docs.json'' \<mapsto> [doc_a, doc_no_title, doc_b] ] [] =
   Inl (KeyError ''title'')"
  by (simp add: sample_defs)

section \<open>Required and optional fields\<close>

text \<open>
  Claim C10: a document without \<open>doc_type\<close> or \<open>scraped_at\<close> is never rejected for
  that. The metadata handed to the chunker carries \<open>'general'\<close> for a missing \<open>doc_type\<close>
  and the empty string for a missing \<open>scraped_at\<close>; \<open>title\<close>, \<open>source\<close> and \<open>url\<close>
  are those of the document. For a document with the four required fields the outcome of
  the \<open>try\<close> block is the chunker's outcome on exactly that metadata, whatever the chunker.
\<close>

theorem optional_fields_default:
  assumes "doc ''content'' = Some c" and "doc ''title'' = Some t"
    and "doc ''source'' = Some s" and "doc ''url'' = Some u"
  shows "chunk_one_document ch doc =
     ch c [''title'' \<mapsto> t, ''source'' \<mapsto> s, ''url'' \<mapsto> u,
           ''doc_type'' \<mapsto> (case doc ''doc_type'' of None \<Rightarrow> ''general'' | Some v \<Rightarrow> v),
           ''scraped_at'' \<mapsto> (case doc ''scraped_at'' of None \<Rightarrow> '''' | Some v \<Rightarrow> v)]"
  using assms by (simp add: chunk_one_document_def getitem_def dict_get_def)

theorem optional_fields_default_witness:
  "doc_a ''content'' = Some ''alpha'' \<and> doc_a ''title'' = Some ''A'' \<and>
   doc_a ''source'' = Some ''docs'' \<and> doc_a ''url'' = Some ''u1'' \<and>
   doc_a ''doc_type'' = None \<and> doc_a ''scraped_at'' = None \<and>
   chunk_one_document sample_chunker doc_a =
     sample_chunker ''alpha''
       [''title'' \<mapsto> ''A'', ''source'' \<mapsto> ''docs'', ''url'' \<mapsto> ''u1'',
        ''doc_type'' \<mapsto> ''general'', ''scraped_at'' \<mapsto> '''']"
proof -
  have h: "doc_a ''content'' = Some ''alpha''" "doc_a ''title'' = Some ''A''"
    "doc_a ''source'' = Some ''docs''" "doc_a ''url'' = Some ''u1''"
    by (simp_all add: doc_a_def)
  have n: "doc_a ''doc_type'' = None" "doc_a ''scraped_at'' = None"
    by (simp_all add: doc_a_def)
  from optional_fields_default [OF h, of sample_chunker] h n show ?thesis by simp
qed

lemma missing_source_or_url_error:
  assumes title: "doc ''title'' = Some t"
    and missing: "doc ''source'' = None \<or> doc ''url'' = None"
  shows "\<exists>e. e \<in> {KeyError ''content'', KeyError ''source'', KeyError ''url''} \<and>
             chunk_one_document ch doc = Inl e"
proof (cases "doc ''content''")
  case None
  then have "chunk_one_document ch doc = Inl (KeyError ''content'')"
    by (simp add: chunk_one_document_def getitem_def)
  then show ?thesis by simp
next
  case content: (Some c)
  show ?thesis
  proof (cases "doc ''source''")
    case None
    with content title have "chunk_one_document ch doc = Inl (KeyError ''source'')"
      by (simp add: chunk_one_document_def getitem_def)
    then show ?thesis by simp
  next
    case (Some s)
    with missing have "doc ''url'' = None" by simp
    with content title Some have "chunk_one_document ch doc = Inl (KeyError ''url'')"
      by (simp add: chunk_one_document_def getitem_def)
    then show ?thesis by simp
  qed
qed

text \<open>
  Claim C9: a document that has a title but no \<open>source\<close> or no \<open>url\<close> is a per-document
  failure like any other. The \<open>try\<close> block raises a \<open>KeyError\<close>, the handler records it
  under the document's title, and the loop goes on with the next document and unchanged
  chunks. In a file whose other documents are handled, the loop returns the chunks of all
  the others and the error log has one record for this document, in its place.
\<close>

theorem missing_source_or_url_skipped:
  assumes title: "doc ''title'' = Some t"
    and missing: "doc ''source'' = None \<or> doc ''url'' = None"
    and before: "list_all (handled ch) ds1"
    and after: "list_all (handled ch) ds2"
  shows "\<exists>e. e \<in> {KeyError ''content'', KeyError ''source'', KeyError ''url''} \<and>
     chunk_one_document ch doc = Inl e \<and>
     process_documents ch dt n i (doc # ds2) (cs, lg) =
       process_documents ch dt n (i + 1) ds2 (cs, lg @ [ErrorProcessing t e]) \<and>
     (\<exists>lg'. process_documents ch dt n i (ds1 @ doc # ds2) (cs, lg) =
              Inr (cs @ concat (map (chunks_of ch) ds1) @ concat (map (chunks_of ch) ds2), lg') \<and>
            filter is_error lg' =
              filter is_error lg @ concat (map (errors_of ch) ds1) @ [ErrorProcessing t e] @
              concat (map (errors_of ch) ds2))"
proof -
  from missing_source_or_url_error [OF title missing, of ch] obtain e where
    e: "e \<in> {KeyError ''content'', KeyError ''source'', KeyError ''url''}" and
    fails: "chunk_one_document ch doc = Inl e"
    by blast
  from fails title have step: "process_documents ch dt n i (doc # ds2) (cs, lg) =
       process_documents ch dt n (i + 1) ds2 (cs, lg @ [ErrorProcessing t e])"
    by (simp add: getitem_def)
  from fails title have h: "handled ch doc" and c: "chunks_of ch doc = []"
    and er: "errors_of ch doc = [ErrorProcessing t e]"
    by (simp_all add: handled_def chunks_of_def errors_of_def)
  from before after h have "list_all (handled ch) (ds1 @ doc # ds2)" by simp
  from process_documents_handled [OF this, of dt n i cs lg] c er
  have "\<exists>lg'. process_documents ch dt n i (ds1 @ doc # ds2) (cs, lg) =
              Inr (cs @ concat (map (chunks_of ch) ds1) @ concat (map (chunks_of ch) ds2), lg') \<and>
            filter is_error lg' =
              filter is_error lg @ concat (map (errors_of ch) ds1) @ [ErrorProcessing t e] @
              concat (map (errors_of ch) ds2)"
    by simp
  with e fails step show ?thesis by blast
qed

theorem missing_source_or_url_skipped_witness:
  "doc_no_url ''title'' = Some ''D'' \<and> doc_no_url ''url'' = None \<and>
   list_all (handled sample_chunker) [doc_a] \<and> list_all (handled sample_chunker) [doc_b] \<and>
   process_documents sample_chunker ''Python'' 3 0 [doc_a, doc_no_url, doc_b] ([], []) =
     Inr (chunks_of sample_chunker doc_a @ chunks_of sample_chunker doc_b,
          [ErrorProcessing ''D'' (KeyError ''url'')])"
proof -
  have t: "doc_no_url ''title'' = Some ''D''" and u: "doc_no_url ''url'' = None"
    by (simp_all add: doc_no_url_def)
  then have m: "doc_no_url ''source'' = None \<or> doc_no_url ''url'' = None" by simp
  have b: "list_all (handled sample_chunker) [doc_a]"
    and a: "list_all (handled sample_chunker) [doc_b]"
    by (simp_all add: handled_def sample_defs)
  have run: "process_documents sample_chunker ''Python'' 3 0 [doc_a, doc_no_url, doc_b] ([], []) =
     Inr (chunks_of sample_chunker doc_a @ chunks_of sample_chunker doc_b,
          [ErrorProcessing ''D'' (KeyError ''url'')])"
    using missing_source_or_url_skipped [OF t m b a, of "''Python''" 3 0 "[]" "[]"]
    by (simp add: chunks_of_def sample_defs)
  with t u a b show ?thesis by simp
qed

section \<open>The call to the vector store\<close>

text \<open>
  Claim C5: for every processed source group that yields at least one chunk, the pipeline
  makes exactly one \<open>add_documents\<close> call, and the \<open>texts\<close>, \<open>metadatas\<close> and \<open>ids\<close> it
  passes have the same length and are aligned: position \<open>k\<close> of each is the content, the
  metadata and the id of the \<open>k\<close>-th chunk of the group. The chunks of the group are those
  the chunker returned for the documents of the file, in file order.
\<close>

theorem one_aligned_call_per_source:
  assumes run: "process_source ch fs (p, dt) st = Inr st'"
    and fl: "fs p = Some docs"
    and cs: "cs = concat (map (chunks_of ch) docs)"
    and nonempty: "cs \<noteq> []"
  shows "\<exists>c. vector_store st' = vector_store st @ [c] \<and>
     length (texts c) = length cs \<and> length (metadatas c) = length cs \<and>
     length (ids c) = length cs \<and>
     (\<forall>k<length cs. texts c ! k = content (cs ! k) \<and> metadatas c ! k = metadata (cs ! k) \<and>
        (\<exists>s. metadata (cs ! k) ''source'' = Some s \<and> ids c ! k = s @ ''_'' @ str_nat k))"
proof -
  from nonempty cs have ne: "concat (map (chunks_of ch) docs) \<noteq> []" by simp
  from process_source_Inr(4) [OF run fl ne, folded cs] obtain l where
    l: "make_ids 0 cs = Inr l" and
    st: "vector_store st' = vector_store st @
           [\<lparr>texts = map content cs, metadatas = map metadata cs, ids = l\<rparr>]"
    by blast
  let ?c = "\<lparr>texts = map content cs, metadatas = map metadata cs, ids = l\<rparr>"
  have len: "length (ids ?c) = length cs" using make_ids_length [OF l] by simp
  have "\<forall>k<length cs. texts ?c ! k = content (cs ! k) \<and> metadatas ?c ! k = metadata (cs ! k) \<and>
        (\<exists>s. metadata (cs ! k) ''source'' = Some s \<and> ids ?c ! k = s @ ''_'' @ str_nat k)"
    using make_ids_nth [OF l] by simp
  with st len show ?thesis by (intro exI [of _ ?c]) simp
qed

theorem one_aligned_call_per_source_witness:
  "\<exists>st' c.
     process_source sample_chunker [''data/scraped/python_docs.json'' \<mapsto> [doc_a, doc_b] ]
       (''data/scraped/python_docs.json'', ''Python'')
       \<lparr>vector_store = [], logged = [], total_chunks_added = 0\<rparr> = Inr st' \<and>
     length (concat (map (chunks_of sample_chunker) [doc_a, doc_b])) = 3 \<and>
     vector_store st' = [c] \<and>
     length (texts c) = 3 \<and> length (metadatas c) = 3 \<and> length (ids c) = 3 \<and>
     texts c ! 2 = ''beta'' \<and> (metadatas c ! 2) ''url'' = Some ''u2'' \<and> ids c ! 2 = ''docs_2''"
proof -
  let ?fs = "[''data/scraped/python_docs.json'' \<mapsto> [doc_a, doc_b] ]"
  let ?st = "\<lparr>vector_store = [], logged = [], total_chunks_added = 0\<rparr>"
  let ?cs = "concat (map (chunks_of sample_chunker) [doc_a, doc_b])"
  have "\<exists>st'. process_source sample_chunker ?fs
       (''data/scraped/python_docs.json'', ''Python'') ?st = Inr st'"
    by (simp add: sample_defs)
  then obtain st' where run: "process_source sample_chunker ?fs
       (''data/scraped/python_docs.json'', ''Python'') ?st = Inr st'" ..
  have fl: "?fs ''data/scraped/python_docs.json'' = Some [doc_a, doc_b]" by simp
  have len: "length ?cs = 3" by (simp add: chunks_of_def sample_defs)
  then have ne: "?cs \<noteq> []" by auto
  have third: "content (?cs ! 2) = ''beta''" "metadata (?cs ! 2) ''url'' = Some ''u2''"
    "metadata (?cs ! 2) ''source'' = Some ''docs''"
    by (simp_all add: chunks_of_def sample_defs)
  from one_aligned_call_per_source [OF run fl refl ne] obtain c where
    c: "vector_store st' = vector_store ?st @ [c]"
      "length (texts c) = length ?cs" "length (metadatas c) = length ?cs"
      "length (ids c) = length ?cs"
      "\<forall>k<length ?cs. texts c ! k = content (?cs ! k) \<and> metadatas c ! k = metadata (?cs ! k) \<and>
        (\<exists>s. metadata (?cs ! k) ''source'' = Some s \<and> ids c ! k = s @ ''_'' @ str_nat k)"
    by blast
  from c(5) len have "texts c ! 2 = content (?cs ! 2) \<and> metadatas c ! 2 = metadata (?cs ! 2) \<and>
        (\<exists>s. metadata (?cs ! 2) ''source'' = Some s \<and> ids c ! 2 = s @ ''_'' @ str_nat 2)"
    by simp
  with third have "texts c ! 2 = ''beta''" "(metadatas c ! 2) ''url'' = Some ''u2''"
    "ids c ! 2 = ''docs_2''"
    by (auto simp: str_nat.simps digit_char_def)
  with run len c(1-4) show ?thesis by simp
qed

text \<open>
  Claim C6: in a batch of three documents of which the second has no \<open>content\<close> and the
  others are well-formed, the pipeline yields the chunks of the first and the third, records
  exactly one failure, for the second, and does not raise. The second document has its
  title, which the failure record names; the others are well-formed in that the chunker
  returns chunks for them and these carry the \<open>source\<close> the id is built from.
\<close>

theorem one_bad_document_of_three:
  assumes fl: "fs p = Some [d1, d2, d3]"
    and d1: "chunk_one_document ch d1 = Inr cs1"
    and d2: "d2 ''content'' = None"
    and t2: "d2 ''title'' = Some t2"
    and d3: "chunk_one_document ch d3 = Inr cs3"
    and src: "list_all (\<lambda>c. metadata c ''source'' \<noteq> None) (cs1 @ cs3)"
  shows "process_documents ch dt 3 0 [d1, d2, d3] ([], lg) =
           Inr (cs1 @ cs3, lg @ [ErrorProcessing t2 (KeyError ''content'')]) \<and>
         (\<exists>st'. process_source ch fs (p, dt) st = Inr st' \<and>
            filter is_error (logged st') =
              filter is_error (logged st) @ [ErrorProcessing t2 (KeyError ''content'')] \<and>
            vector_store st' = vector_store st @
              (if cs1 @ cs3 = [] then []
               else [\<lparr>texts = map content (cs1 @ cs3), metadatas = map metadata (cs1 @ cs3),
                      ids = map (\<lambda>k. dict_get (metadata ((cs1 @ cs3) ! k)) ''source'' [] @ ''_'' @ str_nat k)
                              [0..<length (cs1 @ cs3)]\<rparr>]))"
proof -
  from d2 have f2: "chunk_one_document ch d2 = Inl (KeyError ''content'')"
    by (simp add: chunk_one_document_def getitem_def)
  from d1 f2 t2 d3 have loop: "process_documents ch dt 3 0 [d1, d2, d3] ([], lg) =
           Inr (cs1 @ cs3, lg @ [ErrorProcessing t2 (KeyError ''content'')])"
    by (simp add: getitem_def)
  from d1 f2 t2 d3 have h: "list_all (handled ch) [d1, d2, d3]"
    and c: "concat (map (chunks_of ch) [d1, d2, d3]) = cs1 @ cs3"
    and e: "concat (map (errors_of ch) [d1, d2, d3]) = [ErrorProcessing t2 (KeyError ''content'')]"
    by (simp_all add: handled_def chunks_of_def errors_of_def)
  from src c have src': "list_all (\<lambda>c. metadata c ''source'' \<noteq> None)
      (concat (map (chunks_of ch) [d1, d2, d3]))" by simp
  from process_source_total [where fs = fs and p = p and dt = dt and st = st, OF fl h src'] obtain st' where
    run: "process_source ch fs (p, dt) st = Inr st'" by blast
  have er: "filter is_error (logged st') =
              filter is_error (logged st) @ [ErrorProcessing t2 (KeyError ''content'')]"
    using process_source_Inr(2) [OF run fl] e by simp
  have store: "vector_store st' = vector_store st @
              (if cs1 @ cs3 = [] then []
               else [\<lparr>texts = map content (cs1 @ cs3), metadatas = map metadata (cs1 @ cs3),
                      ids = map (\<lambda>k. dict_get (metadata ((cs1 @ cs3) ! k)) ''source'' [] @ ''_'' @ str_nat k)
                              [0..<length (cs1 @ cs3)]\<rparr>])"
  proof (cases "cs1 @ cs3 = []")
    case True
    with process_source_Inr(3) [OF run fl] c show ?thesis by simp
  next
    case False
    with c have ne: "concat (map (chunks_of ch) [d1, d2, d3]) \<noteq> []" by simp
    from process_source_Inr(4) [OF run fl ne, unfolded c] obtain l where
      l: "make_ids 0 (cs1 @ cs3) = Inr l" and
      st: "vector_store st' = vector_store st @
           [\<lparr>texts = map content (cs1 @ cs3), metadatas = map metadata (cs1 @ cs3), ids = l\<rparr>]"
      by blast
    have "l = map (\<lambda>k. dict_get (metadata ((cs1 @ cs3) ! k)) ''source'' [] @ ''_'' @ str_nat k)
                              [0..<length (cs1 @ cs3)]"
    proof (rule nth_equalityI)
      show "length l = length (map (\<lambda>k. dict_get (metadata ((cs1 @ cs3) ! k)) ''source'' [] @ ''_'' @ str_nat k)
                              [0..<length (cs1 @ cs3)])"
        using make_ids_length [OF l] by simp
    next
      fix k assume "k < length l"
      then have k: "k < length (cs1 @ cs3)" using make_ids_length [OF l] by simp
      from make_ids_nth [OF l k] k
      show "l ! k = map (\<lambda>k. dict_get (metadata ((cs1 @ cs3) ! k)) ''source'' [] @ ''_'' @ str_nat k)
                              [0..<length (cs1 @ cs3)] ! k"
        by (auto simp: dict_get_def simp del: length_append)
    qed
    with st False show ?thesis by simp
  qed
  from loop run er store show ?thesis by blast
qed

theorem one_bad_document_of_three_witness:
  "chunk_one_document sample_chunker doc_a = Inr (chunks_of sample_chunker doc_a) \<and>
   doc_no_content ''content'' = None \<and> doc_no_content ''title'' = Some ''C'' \<and>
   chunk_one_document sample_chunker doc_b = Inr (chunks_of sample_chunker doc_b) \<and>
   list_all (\<lambda>c. metadata c ''source'' \<noteq> None)
     (chunks_of sample_chunker doc_a @ chunks_of sample_chunker doc_b) \<and>
   (\<exists>st'. process_source sample_chunker
            [''data/scraped/python_docs.json'' \<mapsto> [doc_a, doc_no_content, doc_b] ]
            (''data/scraped/python_docs.json'', ''Python'')
            \<lparr>vector_store = [], logged = [], total_chunks_added = 0\<rparr> = Inr st' \<and>
          filter is_error (logged st') = [ErrorProcessing ''C'' (KeyError ''content'')] \<and>
          map texts (vector_store st') = [ [''alph'', ''a'', ''beta''] ] \<and>
          map ids (vector_store st') = [ [''docs_0'', ''docs_1'', ''docs_2''] ])"
proof -
  let ?fs = "[''data/scraped/python_docs.json'' \<mapsto> [doc_a, doc_no_content, doc_b] ]"
  let ?st = "\<lparr>vector_store = [], logged = [], total_chunks_added = 0\<rparr>"
  have fl: "?fs ''data/scraped/python_docs.json'' = Some [doc_a, doc_no_content, doc_b]"
    by simp
  have d1: "chunk_one_document sample_chunker doc_a = Inr (chunks_of sample_chunker doc_a)"
    and d3: "chunk_one_document sample_chunker doc_b = Inr (chunks_of sample_chunker doc_b)"
    by (simp_all add: chunks_of_def sample_defs)
  have d2: "doc_no_content ''content'' = None" and t2: "doc_no_content ''title'' = Some ''C''"
    by (simp_all add: doc_no_content_def)
  have src: "list_all (\<lambda>c. metadata c ''source'' \<noteq> None)
     (chunks_of sample_chunker doc_a @ chunks_of sample_chunker doc_b)"
    by (simp add: chunks_of_def sample_defs)
  from one_bad_document_of_three [where fs = ?fs and p = "''data/scraped/python_docs.json''"
      and dt = "''Python''" and lg = "[]" and st = ?st, OF fl d1 d2 t2 d3 src]
  obtain st' where
    run: "process_source sample_chunker ?fs (''data/scraped/python_docs.json'', ''Python'') ?st
            = Inr st'" and
    er: "filter is_error (logged st') =
           filter is_error (logged ?st) @ [ErrorProcessing ''C'' (KeyError ''content'')]" and
    store: "vector_store st' = vector_store ?st @
      (if chunks_of sample_chunker doc_a @ chunks_of sample_chunker doc_b = [] then []
       else [\<lparr>texts = map content (chunks_of sample_chunker doc_a @ chunks_of sample_chunker doc_b),
              metadatas = map metadata (chunks_of sample_chunker doc_a @ chunks_of sample_chunker doc_b),
              ids = map (\<lambda>k. dict_get (metadata ((chunks_of sample_chunker doc_a @
                            chunks_of sample_chunker doc_b) ! k)) ''source'' [] @ ''_'' @ str_nat k)
                      [0..<length (chunks_of sample_chunker doc_a @ chunks_of sample_chunker doc_b)]\<rparr>])"
    by blast
  have cs: "chunks_of sample_chunker doc_a @ chunks_of sample_chunker doc_b =
    [\<lparr>content = ''alph'', metadata = [''title'' \<mapsto> ''A'', ''source'' \<mapsto> ''docs'', ''url'' \<mapsto> ''u1'',
        ''doc_type'' \<mapsto> ''general'', ''scraped_at'' \<mapsto> [], ''chunk_index'' \<mapsto> ''0'']\<rparr>,
     \<lparr>content = ''a'', metadata = [''title'' \<mapsto> ''A'', ''source'' \<mapsto> ''docs'', ''url'' \<mapsto> ''u1'',
        ''doc_type'' \<mapsto> ''general'', ''scraped_at'' \<mapsto> [], ''chunk_index'' \<mapsto> ''1'']\<rparr>,
     \<lparr>content = ''beta'', metadata = [''title'' \<mapsto> ''B'', ''source'' \<mapsto> ''docs'', ''url'' \<mapsto> ''u2'',
        ''doc_type'' \<mapsto> ''general'', ''scraped_at'' \<mapsto> [], ''chunk_index'' \<mapsto> ''0'']\<rparr>]"
    by (simp add: chunks_of_def sample_defs)
  have up: "[0..<3] = [0, 1, 2]" by (simp add: upt_rec)
  from store have "map texts (vector_store st') = [ [''alph'', ''a'', ''beta''] ]"
    and "map ids (vector_store st') = [ [''docs_0'', ''docs_1'', ''docs_2''] ]"
    unfolding cs by (simp_all add: up dict_get_def str_nat.simps digit_char_def)
  with run er d1 d2 t2 d3 src show ?thesis by simp
qed

section \<open>Documents without chunks, and the order of chunks\<close>

text \<open>What a file sends to the store depends only on which of its documents are handled and
  on the chunks they yield.\<close>

lemma process_source_outcome:
  assumes fl: "fs p = Some docs" and fl': "fs' p = Some docs'"
    and h: "list_all (handled ch) docs = list_all (handled ch) docs'"
    and c: "concat (map (chunks_of ch) docs) = concat (map (chunks_of ch) docs')"
  shows "map_sum (\<lambda>e. e) vector_store (process_source ch fs (p, dt) st) =
         map_sum (\<lambda>e. e) vector_store (process_source ch fs' (p, dt) st)"
proof (cases "list_all (handled ch) docs")
  case False
  with h have False': "\<not> list_all (handled ch) docs'" by simp
  from fl fl' show ?thesis
    by (simp add: process_source_def process_documents_unhandled [OF False]
        process_documents_unhandled [OF False'])
next
  case True
  with h have True': "list_all (handled ch) docs'" by simp
  let ?lg = "logged st @ [InfoProcessing dt p, InfoLoaded (length docs) dt]"
  let ?lg' = "logged st @ [InfoProcessing dt p, InfoLoaded (length docs') dt]"
  let ?cs = "concat (map (chunks_of ch) docs)"
  from process_documents_handled [OF True, of dt "length docs" 0 "[]" ?lg]
  obtain l1 where
    pd: "process_documents ch dt (length docs) 0 docs ([], ?lg) = Inr (?cs, l1)"
    by auto
  from process_documents_handled [OF True', of dt "length docs'" 0 "[]" ?lg'] c
  obtain l2 where
    pd': "process_documents ch dt (length docs') 0 docs' ([], ?lg') = Inr (?cs, l2)"
    by auto
  from fl fl' pd pd' show ?thesis
    by (simp add: process_source_def split: sum.splits)
qed

text \<open>
  Claim C7: a document for which the chunker returns no chunks (as it does for empty
  content) is not forwarded to the vector store. It contributes nothing to any
  \<open>add_documents\<close> call: with or without that document in the file, the outcome of
  processing the file is the same, error or store. And when no document of a source group
  yields a chunk, \<open>add_documents\<close> is not called for the group: the store is unchanged.
\<close>

theorem no_chunks_nothing_forwarded:
  "(chunk_one_document ch d = Inr [] \<longrightarrow>
      map_sum (\<lambda>e. e) vector_store (process_source ch (fs(p \<mapsto> pre @ d # post)) (p, dt) st) =
      map_sum (\<lambda>e. e) vector_store (process_source ch (fs(p \<mapsto> pre @ post)) (p, dt) st)) \<and>
   (fs p = Some docs \<longrightarrow> list_all (\<lambda>d. chunk_one_document ch d = Inr []) docs \<longrightarrow>
      (\<exists>st'. process_source ch fs (p, dt) st = Inr st' \<and> vector_store st' = vector_store st))"
proof (intro conjI impI)
  assume none: "chunk_one_document ch d = Inr []"
  then have h: "handled ch d" and c: "chunks_of ch d = []"
    by (simp_all add: handled_def chunks_of_def)
  have fl: "(fs(p \<mapsto> pre @ d # post)) p = Some (pre @ d # post)"
    and fl': "(fs(p \<mapsto> pre @ post)) p = Some (pre @ post)" by simp_all
  from h have hs: "list_all (handled ch) (pre @ d # post) = list_all (handled ch) (pre @ post)"
    by simp
  from c have cs: "concat (map (chunks_of ch) (pre @ d # post)) =
    concat (map (chunks_of ch) (pre @ post))" by simp
  from process_source_outcome [where fs = "fs(p \<mapsto> pre @ d # post)" and fs' = "fs(p \<mapsto> pre @ post)"
      and p = p, OF fl fl' hs cs]
  show "map_sum (\<lambda>e. e) vector_store (process_source ch (fs(p \<mapsto> pre @ d # post)) (p, dt) st) =
      map_sum (\<lambda>e. e) vector_store (process_source ch (fs(p \<mapsto> pre @ post)) (p, dt) st)" .
next
  assume fl: "fs p = Some docs"
    and none: "list_all (\<lambda>d. chunk_one_document ch d = Inr []) docs"
  from none have h: "list_all (handled ch) docs"
    by (induction docs) (simp_all add: handled_def)
  from none have c: "concat (map (chunks_of ch) docs) = []"
    by (induction docs) (simp_all add: chunks_of_def)
  have src: "list_all (\<lambda>c. metadata c ''source'' \<noteq> None) (concat (map (chunks_of ch) docs))"
    unfolding c by simp
  from process_source_total [where fs = fs and p = p and dt = dt and st = st, OF fl h src]
  obtain st' where run: "process_source ch fs (p, dt) st = Inr st'" by blast
  from process_source_Inr(3) [OF run fl c] run
  show "\<exists>st'. process_source ch fs (p, dt) st = Inr st' \<and> vector_store st' = vector_store st"
    by blast
qed

theorem no_chunks_nothing_forwarded_witness:
  "chunk_one_document sample_chunker doc_empty = Inr [] \<and>
   map_sum (\<lambda>e. e) vector_store
     (process_source sample_chunker
        [''data/scraped/python_docs.json'' \<mapsto> [doc_a] @ doc_empty # [doc_b] ]
        (''data/scraped/python_docs.json'', ''Python'')
        \<lparr>vector_store = [], logged = [], total_chunks_added = 0\<rparr>) =
   map_sum (\<lambda>e. e) vector_store
     (process_source sample_chunker
        [''data/scraped/python_docs.json'' \<mapsto> [doc_a] @ [doc_b] ]
        (''data/scraped/python_docs.json'', ''Python'')
        \<lparr>vector_store = [], logged = [], total_chunks_added = 0\<rparr>) \<and>
   list_all (\<lambda>d. chunk_one_document sample_chunker d = Inr []) [doc_empty, doc_empty] \<and>
   (\<exists>st'. process_source sample_chunker
            [''data/scraped/python_docs.json'' \<mapsto> [doc_empty, doc_empty] ]
            (''data/scraped/python_docs.json'', ''Python'')
            \<lparr>vector_store = [], logged = [], total_chunks_added = 0\<rparr> = Inr st' \<and>
          vector_store st' = [])"
proof -
  let ?p = "''data/scraped/python_docs.json''"
  let ?st = "\<lparr>vector_store = [], logged = [], total_chunks_added = 0\<rparr>"
  have none: "chunk_one_document sample_chunker doc_empty = Inr []"
    by (simp add: sample_defs)
  then have all: "list_all (\<lambda>d. chunk_one_document sample_chunker d = Inr [])
      [doc_empty, doc_empty]" by simp
  have fl: "[?p \<mapsto> [doc_empty, doc_empty] ] ?p = Some [doc_empty, doc_empty]" by simp
  from no_chunks_nothing_forwarded [where ch = sample_chunker and d = doc_empty
      and fs = Map.empty and p = ?p and pre = "[doc_a]" and post = "[doc_b]"
      and dt = "''Python''" and st = ?st] none
  have a: "map_sum (\<lambda>e. e) vector_store
     (process_source sample_chunker [?p \<mapsto> [doc_a] @ doc_empty # [doc_b] ] (?p, ''Python'') ?st) =
   map_sum (\<lambda>e. e) vector_store
     (process_source sample_chunker [?p \<mapsto> [doc_a] @ [doc_b] ] (?p, ''Python'') ?st)"
    by blast
  from no_chunks_nothing_forwarded [where ch = sample_chunker
      and fs = "[?p \<mapsto> [doc_empty, doc_empty] ]" and p = ?p and docs = "[doc_empty, doc_empty]"
      and dt = "''Python''" and st = ?st] fl all
  have b: "\<exists>st'. process_source sample_chunker [?p \<mapsto> [doc_empty, doc_empty] ]
       (?p, ''Python'') ?st = Inr st' \<and> vector_store st' = vector_store ?st"
    by blast
  from none a all b show ?thesis by simp
qed

text \<open>
  Claim C8: the chunks of a successfully processed document appear in the \<open>texts\<close>,
  \<open>metadatas\<close> and \<open>ids\<close> of the call in the order the chunker produced them. They
  occupy consecutive positions, starting after the chunks of the documents before it in
  the file, so the chunk indices of one document reach the store in increasing order.
\<close>

theorem chunks_keep_chunker_order:
  assumes run: "process_source ch fs (p, dt) st = Inr st'"
    and fl: "fs p = Some (ds1 @ d # ds2)"
    and d: "chunk_one_document ch d = Inr cs"
    and ne: "cs \<noteq> []"
    and off: "off = length (concat (map (chunks_of ch) ds1))"
  shows "\<exists>c. vector_store st' = vector_store st @ [c] \<and>
     take (length cs) (drop off (texts c)) = map content cs \<and>
     take (length cs) (drop off (metadatas c)) = map metadata cs \<and>
     (\<forall>k<length cs. \<exists>s. metadata (cs ! k) ''source'' = Some s \<and>
        ids c ! (off + k) = s @ ''_'' @ str_nat (off + k))"
proof -
  let ?A = "concat (map (chunks_of ch) ds1)"
  let ?B = "concat (map (chunks_of ch) ds2)"
  from d have cd: "chunks_of ch d = cs" by (simp add: chunks_of_def)
  then have all: "concat (map (chunks_of ch) (ds1 @ d # ds2)) = ?A @ cs @ ?B" by simp
  with ne have nonempty: "concat (map (chunks_of ch) (ds1 @ d # ds2)) \<noteq> []" by simp
  from process_source_Inr(4) [OF run fl nonempty, unfolded all] obtain l where
    l: "make_ids 0 (?A @ cs @ ?B) = Inr l" and
    st: "vector_store st' = vector_store st @
      [\<lparr>texts = map content (?A @ cs @ ?B), metadatas = map metadata (?A @ cs @ ?B), ids = l\<rparr>]"
    by blast
  let ?c = "\<lparr>texts = map content (?A @ cs @ ?B), metadatas = map metadata (?A @ cs @ ?B), ids = l\<rparr>"
  have t: "take (length cs) (drop off (texts ?c)) = map content cs"
    and m: "take (length cs) (drop off (metadatas ?c)) = map metadata cs"
    using off by simp_all
  have i: "\<forall>k<length cs. \<exists>s. metadata (cs ! k) ''source'' = Some s \<and>
        ids ?c ! (off + k) = s @ ''_'' @ str_nat (off + k)"
  proof (intro allI impI)
    fix k assume k: "k < length cs"
    then have k': "off + k < length (?A @ cs @ ?B)" using off by simp
    from k off have "(?A @ cs @ ?B) ! (off + k) = cs ! k" by (simp add: nth_append)
    with make_ids_nth [OF l k']
    show "\<exists>s. metadata (cs ! k) ''source'' = Some s \<and>
        ids ?c ! (off + k) = s @ ''_'' @ str_nat (off + k)" by simp
  qed
  from st t m i show ?thesis by blast
qed

theorem chunks_keep_chunker_order_witness:
  "\<exists>st' c.
     process_source sample_chunker
       [''data/scraped/python_docs.json'' \<mapsto> [doc_b] @ doc_a # [doc_b] ]
       (''data/scraped/python_docs.json'', ''Python'')
       \<lparr>vector_store = [], logged = [], total_chunks_added = 0\<rparr> = Inr st' \<and>
     chunk_one_document sample_chunker doc_a = Inr (chunks_of sample_chunker doc_a) \<and>
     map content (chunks_of sample_chunker doc_a) = [''alph'', ''a''] \<and>
     length (concat (map (chunks_of sample_chunker) [doc_b])) = 1 \<and>
     vector_store st' = [c] \<and>
     take 2 (drop 1 (texts c)) = [''alph'', ''a''] \<and>
     map (\<lambda>m. m ''chunk_index'') (take 2 (drop 1 (metadatas c))) = [Some ''0'', Some ''1''] \<and>
     ids c ! 1 = ''docs_1'' \<and> ids c ! 2 = ''docs_2''"
proof -
  let ?p = "''data/scraped/python_docs.json''"
  let ?fs = "[?p \<mapsto> [doc_b] @ doc_a # [doc_b] ]"
  let ?st = "\<lparr>vector_store = [], logged = [], total_chunks_added = 0\<rparr>"
  let ?cs = "chunks_of sample_chunker doc_a"
  have "\<exists>st'. process_source sample_chunker ?fs (?p, ''Python'') ?st = Inr st'"
    by (simp add: sample_defs)
  then obtain st' where run: "process_source sample_chunker ?fs (?p, ''Python'') ?st = Inr st'" ..
  have fl: "?fs ?p = Some ([doc_b] @ doc_a # [doc_b])" by simp
  have d: "chunk_one_document sample_chunker doc_a = Inr ?cs"
    by (simp add: chunks_of_def sample_defs)
  have cs: "?cs =
    [\<lparr>content = ''alph'', metadata = [''title'' \<mapsto> ''A'', ''source'' \<mapsto> ''docs'', ''url'' \<mapsto> ''u1'',
        ''doc_type'' \<mapsto> ''general'', ''scraped_at'' \<mapsto> [], ''chunk_index'' \<mapsto> ''0'']\<rparr>,
     \<lparr>content = ''a'', metadata = [''title'' \<mapsto> ''A'', ''source'' \<mapsto> ''docs'', ''url'' \<mapsto> ''u1'',
        ''doc_type'' \<mapsto> ''general'', ''scraped_at'' \<mapsto> [], ''chunk_index'' \<mapsto> ''1'']\<rparr>]"
    by (simp add: chunks_of_def sample_defs)
  then have ne: "?cs \<noteq> []" by simp
  have off: "length (concat (map (chunks_of sample_chunker) [doc_b])) = 1"
    by (simp add: chunks_of_def sample_defs)
  from chunks_keep_chunker_order [OF run fl d ne off [symmetric] ] obtain c where
    c: "vector_store st' = vector_store ?st @ [c]"
      "take (length ?cs) (drop 1 (texts c)) = map content ?cs"
      "take (length ?cs) (drop 1 (metadatas c)) = map metadata ?cs"
      "\<forall>k<length ?cs. \<exists>s. metadata (?cs ! k) ''source'' = Some s \<and>
        ids c ! (1 + k) = s @ ''_'' @ str_nat (1 + k)"
    by blast
  from c(2) have t: "take 2 (drop 1 (texts c)) = [''alph'', ''a'']"
    unfolding cs by (simp add: numeral_2_eq_2)
  from c(3) have m: "map (\<lambda>m. m ''chunk_index'') (take 2 (drop 1 (metadatas c))) =
      [Some ''0'', Some ''1'']" unfolding cs by (simp add: numeral_2_eq_2)
  have "0 < length ?cs" and "1 < length ?cs" unfolding cs by simp_all
  with c(4) have "\<exists>s. metadata (?cs ! 0) ''source'' = Some s \<and>
        ids c ! (1 + 0) = s @ ''_'' @ str_nat (1 + 0)"
    and "\<exists>s. metadata (?cs ! 1) ''source'' = Some s \<and>
        ids c ! (1 + 1) = s @ ''_'' @ str_nat (1 + 1)"
    by blast+
  then have i: "ids c ! 1 = ''docs_1''" "ids c ! 2 = ''docs_2''"
    unfolding cs by (auto simp: str_nat.simps digit_char_def numeral_2_eq_2)
  have mc: "map content ?cs = [''alph'', ''a'']" unfolding cs by simp
  from run d mc off c(1) t m i show ?thesis by simp
qed

section \<open>The whole run\<close>

lemma positional_idsD:
  assumes p: "positional_ids c" and k: "k < length (ids c)"
  shows "\<exists>s. (metadatas c ! k) ''source'' = Some s \<and> ids c ! k = s @ ''_'' @ str_nat k"
proof -
  from p have "\<forall>k\<in>set [0..<length (ids c)].
      (case (metadatas c ! k) ''source'' of None \<Rightarrow> False
       | Some s \<Rightarrow> ids c ! k = s @ ''_'' @ str_nat k)"
    unfolding positional_ids_def list_all_iff by blast
  with k have "case (metadatas c ! k) ''source'' of None \<Rightarrow> False
       | Some s \<Rightarrow> ids c ! k = s @ ''_'' @ str_nat k"
    by simp
  then show ?thesis by (cases "(metadatas c ! k) ''source''") simp_all
qed

lemma positional_ids_length: "positional_ids c \<Longrightarrow> length (metadatas c) = length (ids c)"
  by (simp add: positional_ids_def)

lemma make_ids_positional:
  assumes "make_ids 0 cs = Inr l"
  shows "positional_ids \<lparr>texts = map content cs, metadatas = map metadata cs, ids = l\<rparr>"
proof -
  from make_ids_length [OF assms] have len: "length l = length cs" .
  have "\<forall>k\<in>set [0..<length l].
    (case (map metadata cs ! k) ''source'' of None \<Rightarrow> False
     | Some s \<Rightarrow> l ! k = s @ ''_'' @ str_nat k)"
  proof
    fix k assume "k \<in> set [0..<length l]"
    with len have k: "k < length cs" by simp
    from make_ids_nth [OF assms k] k show "(case (map metadata cs ! k) ''source'' of None \<Rightarrow> False
     | Some s \<Rightarrow> l ! k = s @ ''_'' @ str_nat k)" by auto
  qed
  with len show ?thesis
    by (simp add: positional_ids_def list_all_iff cong: option.case_cong)
qed

text \<open>The state a source starts from only prefixes the calls it makes.\<close>

lemma process_source_frame:
  "calls_made (process_source ch fs e st) =
   (case calls_made (process_source ch fs e fresh_state) of
      Inl x \<Rightarrow> Inl x | Inr calls \<Rightarrow> Inr (vector_store st @ calls))"
proof (cases e)
  case (Pair p dt)
  show ?thesis
  proof (cases "fs p")
    case None
    with Pair show ?thesis
      by (simp add: process_source_def calls_made_def fresh_state_def)
  next
    case (Some docs)
    show ?thesis
    proof (cases "list_all (handled ch) docs")
      case False
      with Pair Some show ?thesis
        by (simp add: process_source_def calls_made_def process_documents_unhandled)
    next
      case True
      let ?cs = "concat (map (chunks_of ch) docs)"
      from process_documents_handled [OF True, of dt "length docs" 0 "[]"
          "logged st @ [InfoProcessing dt p, InfoLoaded (length docs) dt]"]
      obtain l1 where pd1: "process_documents ch dt (length docs) 0 docs
          ([], logged st @ [InfoProcessing dt p, InfoLoaded (length docs) dt]) = Inr (?cs, l1)"
        by auto
      from process_documents_handled [OF True, of dt "length docs" 0 "[]"
          "logged fresh_state @ [InfoProcessing dt p, InfoLoaded (length docs) dt]"]
      obtain l2 where pd2: "process_documents ch dt (length docs) 0 docs
          ([], logged fresh_state @ [InfoProcessing dt p, InfoLoaded (length docs) dt]) =
          Inr (?cs, l2)"
        by auto
      have fresh: "vector_store fresh_state = []" by (simp add: fresh_state_def)
      from Pair Some pd1 pd2 fresh show ?thesis
        by (simp add: process_source_def calls_made_def split: sum.splits)
    qed
  qed
qed

lemma process_sources_frame:
  "calls_made (process_sources ch fs es st) =
   (case calls_made (process_sources ch fs es fresh_state) of
      Inl x \<Rightarrow> Inl x | Inr calls \<Rightarrow> Inr (vector_store st @ calls))"
proof (induction es arbitrary: st)
  case Nil
  show ?case by (simp add: calls_made_def fresh_state_def)
next
  case (Cons e es)
  show ?case
  proof (cases "process_source ch fs e fresh_state")
    case (Inl x)
    with process_source_frame [of ch fs e st] have "calls_made (process_source ch fs e st) = Inl x"
      by (simp add: calls_made_def)
    then have "process_source ch fs e st = Inl x"
      by (simp add: calls_made_def split: sum.splits)
    with Inl show ?thesis by (simp add: calls_made_def)
  next
    case (Inr s0)
    with process_source_frame [of ch fs e st]
    have "calls_made (process_source ch fs e st) = Inr (vector_store st @ vector_store s0)"
      by (simp add: calls_made_def)
    then obtain s1 where s1: "process_source ch fs e st = Inr s1"
      and v1: "vector_store s1 = vector_store st @ vector_store s0"
      by (auto simp: calls_made_def split: sum.splits)
    from Cons.IH [of s1] Cons.IH [of s0] Inr s1 v1 show ?thesis
      by (simp split: sum.splits)
  qed
qed

lemma run_frame:
  "calls_made (process_and_add_documentation ch fs store) =
   (case calls_made (process_sources ch fs scraped_files fresh_state) of
      Inl x \<Rightarrow> Inl x | Inr calls \<Rightarrow> Inr (store @ calls))"
proof -
  let ?st = "\<lparr>vector_store = store, logged = [InfoStarting], total_chunks_added = 0\<rparr>"
  have "calls_made (process_and_add_documentation ch fs store) =
    calls_made (process_sources ch fs scraped_files ?st)"
    by (simp add: process_and_add_documentation_def calls_made_def split: sum.splits)
  with process_sources_frame [of ch fs scraped_files ?st] show ?thesis
    by (simp cong: sum.case_cong)
qed

lemma process_source_positional:
  assumes "process_source ch fs e st = Inr st'"
  shows "\<exists>calls. vector_store st' = vector_store st @ calls \<and> list_all positional_ids calls"
proof (cases e)
  case (Pair p dt)
  show ?thesis
  proof (cases "fs p")
    case None
    with Pair assms show ?thesis by (auto simp: process_source_def)
  next
    case (Some docs)
    from assms Pair have run: "process_source ch fs (p, dt) st = Inr st'" by simp
    show ?thesis
    proof (cases "concat (map (chunks_of ch) docs) = []")
      case True
      from process_source_Inr(3) [OF run Some True] show ?thesis by simp
    next
      case False
      from process_source_Inr(4) [OF run Some False] obtain l where
        l: "make_ids 0 (concat (map (chunks_of ch) docs)) = Inr l" and
        v: "vector_store st' = vector_store st @
              [\<lparr>texts = map content (concat (map (chunks_of ch) docs)),
                metadatas = map metadata (concat (map (chunks_of ch) docs)), ids = l\<rparr>]"
        by blast
      from make_ids_positional [OF l] v show ?thesis by simp
    qed
  qed
qed

lemma process_sources_positional:
  "process_sources ch fs es st = Inr st' \<Longrightarrow>
   \<exists>calls. vector_store st' = vector_store st @ calls \<and> list_all positional_ids calls"
proof (induction es arbitrary: st)
  case Nil
  then show ?case by simp
next
  case (Cons e es)
  from Cons.prems obtain s1 where s1: "process_source ch fs e st = Inr s1"
    and rest: "process_sources ch fs es s1 = Inr st'"
    by (auto split: sum.splits)
  from process_source_positional [OF s1] obtain c1 where
    c1: "vector_store s1 = vector_store st @ c1" "list_all positional_ids c1" by blast
  from Cons.IH [OF rest] obtain c2 where
    c2: "vector_store st' = vector_store s1 @ c2" "list_all positional_ids c2" by blast
  from c1 c2 have "vector_store st' = vector_store st @ (c1 @ c2)"
    and "list_all positional_ids (c1 @ c2)" by simp_all
  then show ?case by blast
qed

lemma run_positional:
  assumes "process_and_add_documentation ch fs store = Inr r"
  shows "list_all positional_ids (drop (length store) (vector_store r))"
proof -
  let ?st = "\<lparr>vector_store = store, logged = [InfoStarting], total_chunks_added = 0\<rparr>"
  from assms obtain st' where st': "process_sources ch fs scraped_files ?st = Inr st'"
    and v: "vector_store r = vector_store st'"
    by (auto simp: process_and_add_documentation_def split: sum.splits)
  from process_sources_positional [OF st'] v show ?thesis by auto
qed

section \<open>Identifiers\<close>

text \<open>
  Claim C2: running the full pipeline twice on the same input batch with the same
  configuration gives every chunk the same id in both runs. The second run starts from the
  store the first run left; the counter and the chunk list are set anew. When the first run
  returns, so does the second, and the calls it makes, their ids in particular, are those
  of the first run.
\<close>

theorem rerun_same_ids:
  assumes run: "process_and_add_documentation ch fs store = Inr r1"
  shows "\<exists>r2. process_and_add_documentation ch fs (vector_store r1) = Inr r2 \<and>
     drop (length (vector_store r1)) (vector_store r2) = drop (length store) (vector_store r1) \<and>
     map ids (drop (length (vector_store r1)) (vector_store r2)) =
       map ids (drop (length store) (vector_store r1))"
proof -
  from run_frame [of ch fs store] run obtain calls where
    calls: "calls_made (process_sources ch fs scraped_files fresh_state) = Inr calls"
    and v1: "vector_store r1 = store @ calls"
    by (auto simp: calls_made_def split: sum.splits)
  from run_frame [of ch fs "vector_store r1"] calls
  have "calls_made (process_and_add_documentation ch fs (vector_store r1)) =
    Inr (vector_store r1 @ calls)" by simp
  then obtain r2 where r2: "process_and_add_documentation ch fs (vector_store r1) = Inr r2"
    and v2: "vector_store r2 = vector_store r1 @ calls"
    by (auto simp: calls_made_def split: sum.splits)
  from v1 v2 have "drop (length (vector_store r1)) (vector_store r2) =
    drop (length store) (vector_store r1)" by simp
  with r2 show ?thesis by simp
qed

theorem rerun_same_ids_witness:
  "\<exists>r1 r2.
     process_and_add_documentation sample_chunker
       [''data/scraped/python_docs.json'' \<mapsto> [doc_a, doc_b] ] [] = Inr r1 \<and>
     process_and_add_documentation sample_chunker
       [''data/scraped/python_docs.json'' \<mapsto> [doc_a, doc_b] ] (vector_store r1) = Inr r2 \<and>
     map ids (vector_store r1) = [ [''docs_0'', ''docs_1'', ''docs_2''] ] \<and>
     map ids (drop (length (vector_store r1)) (vector_store r2)) =
       [ [''docs_0'', ''docs_1'', ''docs_2''] ]"
proof -
  let ?fs = "[''data/scraped/python_docs.json'' \<mapsto> [doc_a, doc_b] ]"
  have "\<exists>r1. process_and_add_documentation sample_chunker ?fs [] = Inr r1 \<and>
     map ids (vector_store r1) = [ [''docs_0'', ''docs_1'', ''docs_2''] ]"
    by (simp add: sample_defs)
  then obtain r1 where h1: "process_and_add_documentation sample_chunker ?fs [] = Inr r1 \<and>
     map ids (vector_store r1) = [ [''docs_0'', ''docs_1'', ''docs_2''] ]" ..
  from h1 have r1: "process_and_add_documentation sample_chunker ?fs [] = Inr r1"
    by (rule conjunct1)
  from h1 have i1: "map ids (vector_store r1) = [ [''docs_0'', ''docs_1'', ''docs_2''] ]"
    by (rule conjunct2)
  from rerun_same_ids [OF r1] obtain r2 where
    h2: "process_and_add_documentation sample_chunker ?fs (vector_store r1) = Inr r2 \<and>
     drop (length (vector_store r1)) (vector_store r2) = drop (length ([]::add_call list)) (vector_store r1) \<and>
     map ids (drop (length (vector_store r1)) (vector_store r2)) =
       map ids (drop (length ([]::add_call list)) (vector_store r1))" ..
  from h2 i1 have i2: "map ids (drop (length (vector_store r1)) (vector_store r2)) =
      [ [''docs_0'', ''docs_1'', ''docs_2''] ]" by simp
  from h2 have r2: "process_and_add_documentation sample_chunker ?fs (vector_store r1) = Inr r2"
    by (rule conjunct1)
  show ?thesis
    by (rule exI [of _ r1], rule exI [of _ r2]) (intro conjI r1 r2 i1 i2)
qed
text \<open>
  Claim C1 says that the id of a chunk is a function of its \<open>(source, url, chunk_index)\<close>
  alone, a stable hash and not a counter, whatever else is in the batch. The code numbers
  the chunks of a file with \<open>enumerate\<close>. The chunk of the document with url \<open>u2\<close> and
  chunk index 0 is \<open>docs_0\<close> when its document is alone in the file and \<open>docs_2\<close> when
  another document, with two chunks, comes before it.
\<close>

theorem id_depends_on_batch:
  "map_sum (\<lambda>e. e) (\<lambda>r. map id_assignment (vector_store r))
     (process_and_add_documentation sample_chunker
       [''data/scraped/python_docs.json'' \<mapsto> [doc_b] ] []) =
     Inr [ [((Some ''docs'', Some ''u2'', Some ''0''), ''docs_0'')] ] \<and>
   map_sum (\<lambda>e. e) (\<lambda>r. map id_assignment (vector_store r))
     (process_and_add_documentation sample_chunker
       [''data/scraped/python_docs.json'' \<mapsto> [doc_a, doc_b] ] []) =
     Inr [ [((Some ''docs'', Some ''u1'', Some ''0''), ''docs_0''),
           ((Some ''docs'', Some ''u1'', Some ''1''), ''docs_1''),
           ((Some ''docs'', Some ''u2'', Some ''0''), ''docs_2'')] ]"
  by (simp add: sample_defs)

text \<open>
  Claim C1, amended: the id of every chunk forwarded to the vector store is a deterministic
  function of the chunk's \<open>source\<close> and of its position in the \<open>add_documents\<close> call of
  its source group: the source, an underscore, and the position in decimal.
\<close>

theorem id_is_source_and_position:
  assumes run: "process_and_add_documentation ch fs store = Inr r"
    and c: "c \<in> set (drop (length store) (vector_store r))"
    and k: "k < length (ids c)"
  shows "length (metadatas c) = length (ids c) \<and>
     (\<exists>s. (metadatas c ! k) ''source'' = Some s \<and> ids c ! k = s @ ''_'' @ str_nat k)"
proof -
  from run_positional [OF run] c have p: "positional_ids c" by (simp add: list_all_iff)
  from positional_ids_length [OF p] positional_idsD [OF p k] show ?thesis by simp
qed

theorem id_is_source_and_position_witness:
  "\<exists>r c.
     process_and_add_documentation sample_chunker
       [''data/scraped/python_docs.json'' \<mapsto> [doc_a, doc_b] ] [] = Inr r \<and>
     c \<in> set (drop (length ([]::add_call list)) (vector_store r)) \<and>
     2 < length (ids c) \<and>
     (metadatas c ! 2) ''source'' = Some ''docs'' \<and>
     (metadatas c ! 2) ''url'' = Some ''u2'' \<and>
     ids c ! 2 = ''docs_2''"
proof -
  let ?fs = "[''data/scraped/python_docs.json'' \<mapsto> [doc_a, doc_b] ]"
  have "\<exists>r. process_and_add_documentation sample_chunker ?fs [] = Inr r \<and>
     vector_store r \<noteq> [] \<and>
     length (ids (hd (vector_store r))) = 3 \<and>
     (metadatas (hd (vector_store r)) ! 2) ''source'' = Some ''docs'' \<and>
     (metadatas (hd (vector_store r)) ! 2) ''url'' = Some ''u2''"
    by (simp add: sample_defs)
  then obtain r where h: "process_and_add_documentation sample_chunker ?fs [] = Inr r \<and>
     vector_store r \<noteq> [] \<and>
     length (ids (hd (vector_store r))) = 3 \<and>
     (metadatas (hd (vector_store r)) ! 2) ''source'' = Some ''docs'' \<and>
     (metadatas (hd (vector_store r)) ! 2) ''url'' = Some ''u2''" ..
  let ?c = "hd (vector_store r)"
  from h have run: "process_and_add_documentation sample_chunker ?fs [] = Inr r"
    and ne: "vector_store r \<noteq> []" and len: "length (ids ?c) = 3"
    and src: "(metadatas ?c ! 2) ''source'' = Some ''docs''"
    and url: "(metadatas ?c ! 2) ''url'' = Some ''u2''"
    by simp_all
  from ne have c: "?c \<in> set (drop (length ([]::add_call list)) (vector_store r))" by simp
  from len have k: "2 < length (ids ?c)" by simp
  from id_is_source_and_position [OF run c k] src
  have "ids ?c ! 2 = ''docs'' @ ''_'' @ str_nat 2" by auto
  then have i: "ids ?c ! 2 = ''docs_2''" by (simp add: str_nat.simps digit_char_def)
  show ?thesis
    by (rule exI [of _ r], rule exI [of _ ?c]) (intro conjI run c k src url i)
qed

text \<open>
  Claim C4 says that the ids are globally unique: distinct within a call, and across the
  calls of a run never shared by two different chunks. Positions start at 0 in every call,
  so two files whose documents have the same \<open>source\<close> give the id \<open>docs_0\<close> twice, to the
  first chunk of the document with url \<open>u1\<close> and to that of the document with url \<open>u2\<close>.
\<close>

theorem same_id_for_two_chunks:
  "map_sum (\<lambda>e. e) (\<lambda>r. map id_assignment (vector_store r))
     (process_and_add_documentation sample_chunker
       [''data/scraped/django_docs.json'' \<mapsto> [doc_a],
        ''data/scraped/python_docs.json'' \<mapsto> [doc_b] ] []) =
     Inr [ [((Some ''docs'', Some ''u1'', Some ''0''), ''docs_0''),
           ((Some ''docs'', Some ''u1'', Some ''1''), ''docs_1'')],
          [((Some ''docs'', Some ''u2'', Some ''0''), ''docs_0'')] ]"
  by (simp add: sample_defs)

text \<open>
  Claim C4, amended: within one \<open>add_documents\<close> call all ids are pairwise distinct, and
  two chunks passed in calls of the same run have the same id exactly when they are at the
  same position of their calls and their metadata have the same \<open>source\<close>. Chunks of
  groups with different sources never share an id.
\<close>

theorem ids_distinct_within_call_and_by_source_across:
  assumes run: "process_and_add_documentation ch fs store = Inr r"
    and c1: "c1 \<in> set (drop (length store) (vector_store r))"
    and c2: "c2 \<in> set (drop (length store) (vector_store r))"
    and k1: "k1 < length (ids c1)"
    and k2: "k2 < length (ids c2)"
  shows "distinct (ids c1) \<and>
     (ids c1 ! k1 = ids c2 ! k2 \<longleftrightarrow>
        k1 = k2 \<and> (metadatas c1 ! k1) ''source'' = (metadatas c2 ! k2) ''source'')"
proof -
  from run_positional [OF run] c1 c2 have p1: "positional_ids c1" and p2: "positional_ids c2"
    by (simp_all add: list_all_iff)
  have "distinct (ids c1)"
  proof (unfold distinct_conv_nth, intro allI impI)
    fix i j assume i: "i < length (ids c1)" and j: "j < length (ids c1)" and ne: "i \<noteq> j"
    from positional_idsD [OF p1 i] obtain s where s: "ids c1 ! i = s @ ''_'' @ str_nat i" by blast
    from positional_idsD [OF p1 j] obtain t where t: "ids c1 ! j = t @ ''_'' @ str_nat j" by blast
    show "ids c1 ! i \<noteq> ids c1 ! j"
    proof
      assume "ids c1 ! i = ids c1 ! j"
      with s t have "s @ ''_'' @ str_nat i = t @ ''_'' @ str_nat j" by simp
      from id_inj [OF this] ne show False by simp
    qed
  qed
  moreover
  from positional_idsD [OF p1 k1] obtain s1 where
    s1: "(metadatas c1 ! k1) ''source'' = Some s1" "ids c1 ! k1 = s1 @ ''_'' @ str_nat k1" by blast
  from positional_idsD [OF p2 k2] obtain s2 where
    s2: "(metadatas c2 ! k2) ''source'' = Some s2" "ids c2 ! k2 = s2 @ ''_'' @ str_nat k2" by blast
  have "ids c1 ! k1 = ids c2 ! k2 \<longleftrightarrow>
        k1 = k2 \<and> (metadatas c1 ! k1) ''source'' = (metadatas c2 ! k2) ''source''"
  proof
    assume "ids c1 ! k1 = ids c2 ! k2"
    with s1 s2 have "s1 @ ''_'' @ str_nat k1 = s2 @ ''_'' @ str_nat k2" by simp
    from id_inj [OF this] s1 s2
    show "k1 = k2 \<and> (metadatas c1 ! k1) ''source'' = (metadatas c2 ! k2) ''source''" by simp
  next
    assume a: "k1 = k2 \<and> (metadatas c1 ! k1) ''source'' = (metadatas c2 ! k2) ''source''"
    from a have k: "k1 = k2" by (rule conjunct1)
    from a have "(metadatas c1 ! k1) ''source'' = (metadatas c2 ! k2) ''source''"
      by (rule conjunct2)
    with s1(1) s2(1) have "s1 = s2" by simp
    with k s1(2) s2(2) show "ids c1 ! k1 = ids c2 ! k2" by simp
  qed
  ultimately show ?thesis by simp
qed

theorem ids_distinct_within_call_and_by_source_across_witness:
  "\<exists>r c1 c2.
     process_and_add_documentation sample_chunker
       [''data/scraped/django_docs.json'' \<mapsto> [doc_c],
        ''data/scraped/python_docs.json'' \<mapsto> [doc_b] ] [] = Inr r \<and>
     c1 \<in> set (drop (length ([]::add_call list)) (vector_store r)) \<and>
     c2 \<in> set (drop (length ([]::add_call list)) (vector_store r)) \<and>
     0 < length (ids c1) \<and> 0 < length (ids c2) \<and>
     (metadatas c1 ! 0) ''source'' = Some ''django'' \<and>
     (metadatas c2 ! 0) ''source'' = Some ''docs'' \<and>
     distinct (ids c1) \<and> ids c1 ! 0 \<noteq> ids c2 ! 0"
proof -
  let ?fs = "[''data/scraped/django_docs.json'' \<mapsto> [doc_c],
              ''data/scraped/python_docs.json'' \<mapsto> [doc_b] ]"
  have "\<exists>r. process_and_add_documentation sample_chunker ?fs [] = Inr r \<and>
     length (vector_store r) = 2 \<and>
     length (ids (vector_store r ! 0)) = 1 \<and>
     length (ids (vector_store r ! 1)) = 1 \<and>
     (metadatas (vector_store r ! 0) ! 0) ''source'' = Some ''django'' \<and>
     (metadatas (vector_store r ! 1) ! 0) ''source'' = Some ''docs''"
    by (simp add: sample_defs)
  then obtain r where h: "process_and_add_documentation sample_chunker ?fs [] = Inr r \<and>
     length (vector_store r) = 2 \<and>
     length (ids (vector_store r ! 0)) = 1 \<and>
     length (ids (vector_store r ! 1)) = 1 \<and>
     (metadatas (vector_store r ! 0) ! 0) ''source'' = Some ''django'' \<and>
     (metadatas (vector_store r ! 1) ! 0) ''source'' = Some ''docs''" ..
  let ?c1 = "vector_store r ! 0" and ?c2 = "vector_store r ! 1"
  from h have run: "process_and_add_documentation sample_chunker ?fs [] = Inr r"
    and len: "length (vector_store r) = 2"
    and l1: "length (ids ?c1) = 1" and l2: "length (ids ?c2) = 1"
    and s1: "(metadatas ?c1 ! 0) ''source'' = Some ''django''"
    and s2: "(metadatas ?c2 ! 0) ''source'' = Some ''docs''"
    by simp_all
  from len have c1: "?c1 \<in> set (drop (length ([]::add_call list)) (vector_store r))"
    and c2: "?c2 \<in> set (drop (length ([]::add_call list)) (vector_store r))" by simp_all
  from l1 l2 have k1: "0 < length (ids ?c1)" and k2: "0 < length (ids ?c2)" by simp_all
  from ids_distinct_within_call_and_by_source_across [OF run c1 c2 k1 k2] s1 s2
  have d: "distinct (ids ?c1)" and n: "ids ?c1 ! 0 \<noteq> ids ?c2 ! 0" by simp_all
  show ?thesis
    by (rule exI [of _ r], rule exI [of _ ?c1], rule exI [of _ ?c2])
       (intro conjI run c1 c2 k1 k2 s1 s2 d n)
qed

end
